theory Spec2Isabelle
  imports Complex_Main
begin

section \<open>JavaScript values\<close>

text \<open>
  The transform functions of the dashboards compute on JavaScript numbers. The numbers
  that arrive in the JSON payloads are finite, and they are modelled as \<open>real\<close> with exact
  arithmetic (rounding of the binary representation and the sign of zero are outside the
  model). A number that the code computes by a division, and everything computed from it,
  is a \<open>number\<close>: a finite value, one of the two infinities, or NaN, so that a division
  by zero is a value of the model as it is in the language. The same holds for a number
  that the code converts from a string.
\<close>

datatype number = Finite real | PosInfinity | NegInfinity | NaN

text \<open>The operator \<^verbatim>\<open>/\<close>.\<close>

fun js_divide :: "number \<Rightarrow> number \<Rightarrow> number" where
  "js_divide (Finite a) (Finite b) =
     (if b \<noteq> 0 then Finite (a / b)
      else if 0 < a then PosInfinity
      else if a < 0 then NegInfinity
      else NaN)"
| "js_divide (Finite a) PosInfinity = Finite 0"
| "js_divide (Finite a) NegInfinity = Finite 0"
| "js_divide PosInfinity (Finite b) = (if 0 \<le> b then PosInfinity else NegInfinity)"
| "js_divide NegInfinity (Finite b) = (if 0 \<le> b then NegInfinity else PosInfinity)"
| "js_divide _ _ = NaN"

text \<open>The operator \<^verbatim>\<open>*\<close>.\<close>

fun js_times :: "number \<Rightarrow> number \<Rightarrow> number" where
  "js_times (Finite a) (Finite b) = Finite (a * b)"
| "js_times NaN _ = NaN"
| "js_times _ NaN = NaN"
| "js_times (Finite a) PosInfinity =
     (if 0 < a then PosInfinity else if a < 0 then NegInfinity else NaN)"
| "js_times (Finite a) NegInfinity =
     (if 0 < a then NegInfinity else if a < 0 then PosInfinity else NaN)"
| "js_times PosInfinity (Finite b) =
     (if 0 < b then PosInfinity else if b < 0 then NegInfinity else NaN)"
| "js_times NegInfinity (Finite b) =
     (if 0 < b then NegInfinity else if b < 0 then PosInfinity else NaN)"
| "js_times PosInfinity PosInfinity = PosInfinity"
| "js_times NegInfinity NegInfinity = PosInfinity"
| "js_times PosInfinity NegInfinity = NegInfinity"
| "js_times NegInfinity PosInfinity = NegInfinity"

text \<open>
  The operator \<^verbatim>\<open>%\<close>: the remainder has the sign of the dividend, the quotient
  being truncated towards zero; an infinite divisor leaves a finite dividend unchanged.
\<close>

definition js_trunc :: "real \<Rightarrow> int" where
  "js_trunc x = (if 0 \<le> x then \<lfloor>x\<rfloor> else \<lceil>x\<rceil>)"

fun js_mod :: "number \<Rightarrow> number \<Rightarrow> number" where
  "js_mod (Finite a) (Finite b) =
     (if b = 0 then NaN else Finite (a - b * of_int (js_trunc (a / b))))"
| "js_mod (Finite a) PosInfinity = Finite a"
| "js_mod (Finite a) NegInfinity = Finite a"
| "js_mod _ _ = NaN"

text \<open>The operator \<^verbatim>\<open>===\<close> on numbers: NaN is equal to nothing.\<close>

definition strict_eq :: "number \<Rightarrow> number \<Rightarrow> bool" where
  "strict_eq x y = (x \<noteq> NaN \<and> x = y)"

text \<open>A number in a condition: zero and NaN are false.\<close>

fun truthy :: "number \<Rightarrow> bool" where
  "truthy (Finite a) = (a \<noteq> 0)"
| "truthy NaN = False"
| "truthy _ = True"

text \<open>\<^verbatim>\<open>Math.floor\<close>, and \<^verbatim>\<open>Math.round\<close>, which rounds a tie towards plus infinity.\<close>

fun Math_floor :: "number \<Rightarrow> number" where
  "Math_floor (Finite a) = Finite (of_int \<lfloor>a\<rfloor>)"
| "Math_floor x = x"


text \<open>
  \<^verbatim>\<open>Math.max\<close> of any number of arguments: minus infinity for none, NaN as soon as one
  argument is NaN.
\<close>

fun max2 :: "number \<Rightarrow> number \<Rightarrow> number" where
  "max2 NaN _ = NaN"
| "max2 _ NaN = NaN"
| "max2 PosInfinity _ = PosInfinity"
| "max2 _ PosInfinity = PosInfinity"
| "max2 NegInfinity y = y"
| "max2 x NegInfinity = x"
| "max2 (Finite a) (Finite b) = Finite (max a b)"

definition Math_max :: "number list \<Rightarrow> number" where
  "Math_max xs = fold max2 xs NegInfinity"



definition slice_first :: "nat \<Rightarrow> 'a list \<Rightarrow> 'a list" where
  "slice_first n xs = take n xs"

text \<open>The operator \<^verbatim>\<open>+\<close> on numbers.\<close>

fun js_plus :: "number \<Rightarrow> number \<Rightarrow> number" where
  "js_plus (Finite a) (Finite b) = Finite (a + b)"
| "js_plus NaN _ = NaN"
| "js_plus _ NaN = NaN"
| "js_plus PosInfinity NegInfinity = NaN"
| "js_plus NegInfinity PosInfinity = NaN"
| "js_plus PosInfinity _ = PosInfinity"
| "js_plus _ PosInfinity = PosInfinity"
| "js_plus NegInfinity _ = NegInfinity"
| "js_plus _ NegInfinity = NegInfinity"

text \<open>
  \<^verbatim>\<open>x || d\<close> on a finite number: \<open>d\<close> when \<open>x\<close> is zero. \<^verbatim>\<open>x ?? d\<close> on a
  nullable value: \<open>d\<close> when \<open>x\<close> is null.
\<close>

definition or_else :: "real \<Rightarrow> real \<Rightarrow> real" where
  "or_else x d = (if x \<noteq> 0 then x else d)"

definition nullish_or :: "'a option \<Rightarrow> 'a \<Rightarrow> 'a" where
  "nullish_or x d = (case x of None \<Rightarrow> d | Some v \<Rightarrow> v)"

text \<open>
  \<^verbatim>\<open>xs.sort(cmp)\<close>: the sort of the language is stable, and for a consistent comparator
  its result is the one stable arrangement in which no element is followed by one that
  compares below it. Insertion from the right computes it: an element goes before the first
  element that it does not compare above, so before its equals that came later.
\<close>

fun insert_sorted :: "('a \<Rightarrow> 'a \<Rightarrow> real) \<Rightarrow> 'a \<Rightarrow> 'a list \<Rightarrow> 'a list" where
  "insert_sorted cmp x [] = [x]"
| "insert_sorted cmp x (y # ys) =
     (if cmp x y \<le> 0 then x # y # ys else y # insert_sorted cmp x ys)"

definition Array_sort :: "('a \<Rightarrow> 'a \<Rightarrow> real) \<Rightarrow> 'a list \<Rightarrow> 'a list" where
  "Array_sort cmp xs = foldr (insert_sorted cmp) xs []"

text \<open>
  A \<^verbatim>\<open>Map\<close> keeps its entries in the order in which their keys were first set: an
  association list. \<^verbatim>\<open>m.set(k, v)\<close> overwrites the entry of \<open>k\<close> in place, or
  appends a new one.
\<close>

definition Map_get :: "('k \<times> 'v) list \<Rightarrow> 'k \<Rightarrow> 'v option" where
  "Map_get m k = map_of m k"

fun Map_set :: "('k \<times> 'v) list \<Rightarrow> 'k \<Rightarrow> 'v \<Rightarrow> ('k \<times> 'v) list" where
  "Map_set [] k v = [(k, v)]"
| "Map_set ((k', v') # m) k v =
     (if k' = k then (k, v) # m else (k', v') # Map_set m k v)"


text \<open>
  Overflow. The largest double is \<open>2^1024 - 2^971\<close>, and an operation whose exact result
  is at or beyond \<open>2^1024 - 2^970\<close> in magnitude gives an infinity. The sums of market
  caps and of diameters, and the quotients and products computed from them, can leave
  the range of the doubles although every input is in it: there the result of each
  operation passes through \<open>overflow\<close>.
\<close>

definition overflow_bound :: real where
  "overflow_bound = 2 ^ 1024 - 2 ^ 970"

fun overflow :: "number \<Rightarrow> number" where
  "overflow (Finite a) =
     (if overflow_bound \<le> a then PosInfinity
      else if a \<le> - overflow_bound then NegInfinity
      else Finite a)"
| "overflow x = x"

text \<open>
  The operator \<^verbatim>\<open>-\<close> on numbers, and the operator \<^verbatim>\<open><=\<close>, which is false as soon
  as an operand is NaN.
\<close>

fun js_negate :: "number \<Rightarrow> number" where
  "js_negate (Finite a) = Finite (- a)"
| "js_negate PosInfinity = NegInfinity"
| "js_negate NegInfinity = PosInfinity"
| "js_negate NaN = NaN"

definition js_minus :: "number \<Rightarrow> number \<Rightarrow> number" where
  "js_minus x y = js_plus x (js_negate y)"

fun number_le :: "number \<Rightarrow> number \<Rightarrow> bool" where
  "number_le NaN _ = False"
| "number_le _ NaN = False"
| "number_le NegInfinity _ = True"
| "number_le _ PosInfinity = True"
| "number_le (Finite a) (Finite b) = (a \<le> b)"
| "number_le _ _ = False"

text \<open>
  The sort reads the result \<open>v\<close> of its comparator as \<open>+0\<close> when \<open>v\<close> is NaN, and
  then only the sign of \<open>v\<close> decides: an infinite result reads as 1 or \<open>-1\<close>. With a
  comparator that is not consistent, as one that returns NaN for some pairs only, the
  order that the sort returns is left to the engine, and the insertion above gives one
  such order.
\<close>

fun sort_order :: "number \<Rightarrow> real" where
  "sort_order (Finite a) = a"
| "sort_order PosInfinity = 1"
| "sort_order NegInfinity = - 1"
| "sort_order NaN = 0"



section \<open>Price bars\<close>



section \<open>Green rate\<close>

text \<open>
  \<^verbatim>\<open>computeGreenRate(prices)\<close>, of the same helpers. The loop runs \<open>i\<close> from 1 to the
  last index and compares the price at \<open>i\<close> with the one before it.
\<close>

record GreenRate =
  greenRate :: number
  up :: nat
  down :: nat

function green_loop :: "(real \<times> real) list \<Rightarrow> nat \<Rightarrow> nat \<Rightarrow> nat \<Rightarrow> nat \<times> nat" where
  "green_loop prices i u d =
     (if i < length prices then
        let prev = snd (prices ! (i - 1));
            curr = snd (prices ! i);
            diff = curr - prev
        in if diff > 0 then green_loop prices (i + 1) (u + 1) d
           else if diff < 0 then green_loop prices (i + 1) u (d + 1)
           else green_loop prices (i + 1) u d
      else (u, d))"
  by pat_completeness auto
termination
  by (relation "measure (\<lambda>(prices, i, u, d). length prices - i)") auto

declare green_loop.simps [simp del]

definition computeGreenRate :: "(real \<times> real) list \<Rightarrow> GreenRate" where
  "computeGreenRate prices =
     (if length prices < 2 then \<lparr>greenRate = Finite 0, up = 0, down = 0\<rparr>
      else
        let (u, d) = green_loop prices 1 0 0;
            total = u + d;
            rate = (if truthy (Finite (real total))
                    then js_times (js_divide (Finite (real u)) (Finite (real total))) (Finite 100)
                    else Finite 0)
        in \<lparr>greenRate = rate, up = u, down = d\<rparr>)"

section \<open>Coins: volume bars, market share, gainer and loser\<close>

text \<open>The type \<^verbatim>\<open>MarketCoin\<close>; the 24h change is nullable.\<close>

record MarketCoin =
  coin_id :: string
  symbol :: string
  name :: string
  image :: string
  current_price :: real
  market_cap :: real
  total_volume :: real
  price_change_percentage_24h :: "real option"
  market_cap_rank :: real



definition totalTop5Cap :: "MarketCoin list \<Rightarrow> number" where
  "totalTop5Cap topCoins =
     foldl (\<lambda>sum coin. overflow (js_plus sum (Finite (or_else (market_cap coin) 0))))
       (Finite 0) (slice_first 5 topCoins)"


text \<open>
  The extra statistics of the same page: the coins with a change, the first of them in
  descending and in ascending order of change, and their average change.
\<close>

definition coinsWithChange :: "MarketCoin list \<Rightarrow> MarketCoin list" where
  "coinsWithChange topCoins = filter (\<lambda>c. price_change_percentage_24h c \<noteq> None) topCoins"

definition first_or_null :: "'a list \<Rightarrow> 'a option" where
  "first_or_null xs = (case xs of [] \<Rightarrow> None | x # _ \<Rightarrow> Some x)"

definition topGainer :: "MarketCoin list \<Rightarrow> MarketCoin option" where
  "topGainer topCoins =
     first_or_null (Array_sort
       (\<lambda>a b. nullish_or (price_change_percentage_24h b) 0
             - nullish_or (price_change_percentage_24h a) 0)
       (coinsWithChange topCoins))"

definition topLoser :: "MarketCoin list \<Rightarrow> MarketCoin option" where
  "topLoser topCoins =
     first_or_null (Array_sort
       (\<lambda>a b. nullish_or (price_change_percentage_24h a) 0
             - nullish_or (price_change_percentage_24h b) 0)
       (coinsWithChange topCoins))"

definition avgChange24h :: "MarketCoin list \<Rightarrow> number" where
  "avgChange24h topCoins =
     (if length (coinsWithChange topCoins) > 0
      then js_divide
             (Finite (foldl (\<lambda>sum c. sum + nullish_or (price_change_percentage_24h c) 0) 0
                        (coinsWithChange topCoins)))
             (Finite (real (length (coinsWithChange topCoins))))
      else Finite 0)"

section \<open>Near-Earth objects\<close>

text \<open>
  The types of the NASA page, \<^verbatim>\<open>src/app/nasa/page.tsx\<close>. The feed lists the objects of each day; the flattened
  list carries the day in each object, and the ranking adds the parsed distance and
  velocity of the approach.
\<close>

record CloseApproach =
  close_approach_date :: string
  miss_distance_kilometers :: string
  relative_velocity_kilometers_per_second :: string
  orbiting_body :: string

record NeoObject =
  neo_id :: string
  neo_name :: string
  is_potentially_hazardous_asteroid :: bool
  estimated_diameter_min :: real
  estimated_diameter_max :: real
  close_approach_data :: "CloseApproach list"

record DatedNeo = NeoObject +
  date :: string

record ClosestNeo = DatedNeo +
  missKm :: number
  velocityKmPerSec :: number




text \<open>
  \<^verbatim>\<open>pickClosestNeos(neos, limit)\<close>. The conversion \<^verbatim>\<open>Number\<close> of a string to a
  number is a parameter: its result is NaN for a string that is not a numeral. The limit
  is a count: a natural number. An object with no approach maps to null and is filtered
  out. The comparator of the sort is the difference of two miss distances.
\<close>

definition enrich :: "(string \<Rightarrow> number) \<Rightarrow> DatedNeo \<Rightarrow> ClosestNeo option" where
  "enrich Number n =
     (case close_approach_data n of
        [] \<Rightarrow> None
      | firstApproach # _ \<Rightarrow>
          Some (DatedNeo.extend (n\<lparr>date := close_approach_date firstApproach\<rparr>)
            (ClosestNeo.fields
               (Number (miss_distance_kilometers firstApproach))
               (Number (relative_velocity_kilometers_per_second firstApproach)))))"

definition pickClosestNeos :: "(string \<Rightarrow> number) \<Rightarrow> DatedNeo list \<Rightarrow> nat \<Rightarrow> ClosestNeo list" where
  "pickClosestNeos Number neos limit =
     (let enriched = map the (filter (\<lambda>e. e \<noteq> None) (map (enrich Number) neos))
      in slice_first limit
           (Array_sort (\<lambda>a b. sort_order (js_minus (missKm a) (missKm b))) enriched))"

section \<open>Solar flares\<close>

record SolarFlare =
  flrID :: string
  beginTime :: string
  peakTime :: string
  endTime :: string
  classType :: string
  sourceLocation :: "string option"
  link :: string

record FlareDay =
  flare_date :: string
  flare_count :: nat

text \<open>
  \<^verbatim>\<open>groupFlaresByDay(flares)\<close>: one pass over the flares fills the map, then its entries
  are sorted by day. The comparison \<^verbatim>\<open>localeCompare\<close> of the host is a parameter.
\<close>

definition count_flare :: "(string \<times> nat) list \<Rightarrow> SolarFlare \<Rightarrow> (string \<times> nat) list" where
  "count_flare m f =
     (let day = slice_first 10 (beginTime f)
      in Map_set m day (nullish_or (Map_get m day) 0 + 1))"

definition groupFlaresByDay :: "(string \<Rightarrow> string \<Rightarrow> real) \<Rightarrow> SolarFlare list \<Rightarrow> FlareDay list" where
  "groupFlaresByDay localeCompare flares =
     Array_sort (\<lambda>a b. localeCompare (flare_date a) (flare_date b))
       (map (\<lambda>(d, c). \<lparr>flare_date = d, flare_count = c\<rparr>) (foldl count_flare [] flares))"

section \<open>Raising calls and divisors\<close>









section \<open>Definitions for the statements\<close>








text \<open>
  The moves of a price series: the pair of the samples \<open>i - 1\<close> and \<open>i\<close> is up when
  the later price is strictly greater, down when it is strictly less. The counts range
  over the indices from 1 to the last.
\<close>

definition is_up :: "(real \<times> real) list \<Rightarrow> nat \<Rightarrow> bool" where
  "is_up prices i = (snd (prices ! (i - 1)) < snd (prices ! i))"

definition is_down :: "(real \<times> real) list \<Rightarrow> nat \<Rightarrow> bool" where
  "is_down prices i = (snd (prices ! i) < snd (prices ! (i - 1)))"

definition spec_up :: "(real \<times> real) list \<Rightarrow> nat" where
  "spec_up prices = length (filter (is_up prices) [1..<length prices])"

definition spec_down :: "(real \<times> real) list \<Rightarrow> nat" where
  "spec_down prices = length (filter (is_down prices) [1..<length prices])"

text \<open>
  A coin for the examples, and the maximum 24h volume of a list of coins.
\<close>

definition example_coin :: "string \<Rightarrow> real \<Rightarrow> real \<Rightarrow> real option \<Rightarrow> MarketCoin" where
  "example_coin s cap vol change =
     \<lparr>coin_id = s, symbol = s, name = s, image = [], current_price = 1, market_cap = cap,
      total_volume = vol, price_change_percentage_24h = change, market_cap_rank = 1\<rparr>"





text \<open>
  The 24h change of a coin with null read as 0, as the comparators read it; the first
  minimum of a list under a key, which is the head of the stable sort by that key; and a
  list of coins for the examples.
\<close>

definition change_of :: "MarketCoin \<Rightarrow> real" where
  "change_of c = nullish_or (price_change_percentage_24h c) 0"

fun first_min :: "('a \<Rightarrow> real) \<Rightarrow> 'a list \<Rightarrow> 'a option" where
  "first_min f [] = None"
| "first_min f (x # xs) =
     (case first_min f xs of
        None \<Rightarrow> Some x
      | Some h \<Rightarrow> if f x \<le> f h then Some x else Some h)"

definition example_coins :: "MarketCoin list" where
  "example_coins =
     [example_coin ''a'' 9 1 None, example_coin ''b'' 8 1 (Some 2),
      example_coin ''c'' 7 1 (Some (- 1)), example_coin ''d'' 6 1 (Some 2),
      example_coin ''e'' 5 1 (Some (- 1))]"

text \<open>
  The remaining objects of the ranking in the words of the specification: the objects
  with an approach record, each with the date, the parsed miss distance and the parsed
  velocity of its first approach record. Objects for the examples follow, and a
  conversion that reads a string of decimal digits and gives NaN for any other string
  but the empty one.
\<close>

definition has_approach :: "DatedNeo \<Rightarrow> bool" where
  "has_approach n = (close_approach_data n \<noteq> [])"

definition first_approach :: "DatedNeo \<Rightarrow> CloseApproach" where
  "first_approach n = hd (close_approach_data n)"

definition spec_enrich :: "(string \<Rightarrow> number) \<Rightarrow> DatedNeo \<Rightarrow> ClosestNeo" where
  "spec_enrich Number n =
     DatedNeo.extend (n\<lparr>date := close_approach_date (first_approach n)\<rparr>)
       (ClosestNeo.fields
          (Number (miss_distance_kilometers (first_approach n)))
          (Number (relative_velocity_kilometers_per_second (first_approach n))))"

definition remaining :: "(string \<Rightarrow> number) \<Rightarrow> DatedNeo list \<Rightarrow> ClosestNeo list" where
  "remaining Number neos = map (spec_enrich Number) (filter has_approach neos)"

definition example_approach :: "string \<Rightarrow> string \<Rightarrow> CloseApproach" where
  "example_approach d km =
     \<lparr>close_approach_date = d, miss_distance_kilometers = km,
      relative_velocity_kilometers_per_second = ''7'', orbiting_body = ''Earth''\<rparr>"

definition example_neo :: "string \<Rightarrow> CloseApproach list \<Rightarrow> DatedNeo" where
  "example_neo i approaches =
     \<lparr>neo_id = i, neo_name = i, is_potentially_hazardous_asteroid = False,
      estimated_diameter_min = 1, estimated_diameter_max = 3,
      close_approach_data = approaches, date = ''2024-01-01''\<rparr>"

definition is_digit :: "char \<Rightarrow> bool" where
  "is_digit c = (48 \<le> (of_char c :: nat) \<and> (of_char c :: nat) \<le> 57)"

definition example_Number :: "string \<Rightarrow> number" where
  "example_Number s =
     (if list_all is_digit s
      then Finite (real (foldl (\<lambda>n c. 10 * n + (of_char c - 48)) 0 s))
      else NaN)"

text \<open>
  The day of a flare: the first ten characters of its begin timestamp. Flares and a
  comparison of strings by character codes for the examples follow.
\<close>

definition flare_day :: "SolarFlare \<Rightarrow> string" where
  "flare_day f = take 10 (beginTime f)"

definition example_flare :: "string \<Rightarrow> SolarFlare" where
  "example_flare t =
     \<lparr>flrID = ''id'', beginTime = t, peakTime = t, endTime = t, classType = ''M1.0'',
      sourceLocation = None, link = ''''\<rparr>"

fun example_compare :: "string \<Rightarrow> string \<Rightarrow> real" where
  "example_compare [] [] = 0"
| "example_compare [] (y # ys) = - 1"
| "example_compare (x # xs) [] = 1"
| "example_compare (x # xs) (y # ys) =
     (if (of_char x :: nat) < of_char y then - 1
      else if (of_char y :: nat) < of_char x then 1
      else example_compare xs ys)"

definition example_flares :: "SolarFlare list" where
  "example_flares =
     [example_flare ''2024-01-02T10:00Z'', example_flare ''2024-01-01T23:59Z'',
      example_flare ''2024-01-02T11:30Z'']"



text \<open>
  The comparator of the ranking, as the sort reads it, and two lists of objects for the
  examples: in the second one, a miss distance is not a numeral.
\<close>

definition miss_cmp :: "ClosestNeo \<Rightarrow> ClosestNeo \<Rightarrow> real" where
  "miss_cmp a b = sort_order (js_minus (missKm a) (missKm b))"

definition example_neos :: "DatedNeo list" where
  "example_neos =
     [example_neo ''a'' [example_approach ''d1'' ''500'', example_approach ''d2'' ''1''],
      example_neo ''b'' [],
      example_neo ''c'' [example_approach ''d3'' ''20''],
      example_neo ''d'' [example_approach ''d4'' ''3000'']]"

definition example_neos_nan :: "DatedNeo list" where
  "example_neos_nan =
     [example_neo ''a'' [example_approach ''d1'' ''3''],
      example_neo ''b'' [example_approach ''d2'' ''abc''],
      example_neo ''c'' [example_approach ''d3'' ''1'']]"

section \<open>Properties of the price bars\<close>




lemma step_zero:
  assumes "0 < len"
  shows "Math_max [Finite 1, Math_floor (js_divide (Finite (real len)) (Finite (real 0)))]
         = PosInfinity"
  using assms by (simp add: Math_max_def)


lemma mod_step_infinite:
  "strict_eq (js_mod (Finite (real idx)) PosInfinity) (Finite 0) = (idx = 0)"
  by (simp add: strict_eq_def)



































section \<open>Properties of the green rate\<close>

lemma green_loop_counts:
  "green_loop prices i u d =
     (u + length (filter (is_up prices) [i..<length prices]),
      d + length (filter (is_down prices) [i..<length prices]))"
proof (induction prices i u d rule: green_loop.induct)
  case (1 prices i u d)
  show ?case
  proof (cases "i < length prices")
    case False
    then show ?thesis by (simp add: green_loop.simps [of prices i])
  next
    case True
    then have upt: "[i..<length prices] = i # [i + 1..<length prices]"
      by (simp add: upt_conv_Cons)
    let ?diff = "snd (prices ! i) - snd (prices ! (i - 1))"
    consider (up) "?diff > 0" | (down) "\<not> ?diff > 0" "?diff < 0"
      | (flat) "\<not> ?diff > 0" "\<not> ?diff < 0"
      by blast
    then show ?thesis
    proof cases
      case up
      then have "green_loop prices i u d = green_loop prices (i + 1) (u + 1) d"
        using True by (simp add: green_loop.simps [of prices i])
      also note "1.IH"(1) [OF True refl refl refl up]
      finally show ?thesis
        using up by (simp add: upt is_up_def is_down_def)
    next
      case down
      then have "green_loop prices i u d = green_loop prices (i + 1) u (d + 1)"
        using True by (simp add: green_loop.simps [of prices i])
      also note "1.IH"(2) [OF True refl refl refl down]
      finally show ?thesis
        using down by (simp add: upt is_up_def is_down_def)
    next
      case flat
      then have "green_loop prices i u d = green_loop prices (i + 1) u d"
        using True by (simp add: green_loop.simps [of prices i])
      also note "1.IH"(3) [OF True refl refl refl flat]
      finally show ?thesis
        using flat by (simp add: upt is_up_def is_down_def)
    qed
  qed
qed

lemma filter_disjoint_length:
  assumes "\<And>x. \<not> (P x \<and> Q x)"
  shows "length (filter P xs) + length (filter Q xs) \<le> length xs"
  using assms by (induction xs) auto

lemma up_down_bound: "spec_up prices + spec_down prices \<le> length prices - 1"
proof -
  have "\<And>i. \<not> (is_up prices i \<and> is_down prices i)"
    by (auto simp: is_up_def is_down_def)
  then have "spec_up prices + spec_down prices \<le> length [1..<length prices]"
    unfolding spec_up_def spec_down_def by (rule filter_disjoint_length)
  then show ?thesis by simp
qed

lemma spec_counts_short: "length prices < 2 \<Longrightarrow> spec_up prices = 0 \<and> spec_down prices = 0"
  by (cases prices) (simp_all add: spec_up_def spec_down_def)

lemma rate_value:
  "(if truthy (Finite (real t))
    then js_times (js_divide (Finite (real u)) (Finite (real t))) (Finite 100)
    else Finite 0)
   = (if t = 0 then Finite 0 else Finite (real u / real t * 100))"
  by simp

lemma computeGreenRate_eq:
  "computeGreenRate prices =
     \<lparr>greenRate = (if spec_up prices + spec_down prices = 0 then Finite 0
        else Finite (real (spec_up prices) / real (spec_up prices + spec_down prices) * 100)),
      up = spec_up prices, down = spec_down prices\<rparr>"
proof (cases "length prices < 2")
  case True
  then show ?thesis by (simp add: computeGreenRate_def spec_counts_short)
next
  case False
  have "green_loop prices 1 0 0 = (spec_up prices, spec_down prices)"
    by (simp add: green_loop_counts spec_up_def spec_down_def)
  then show ?thesis
    using False unfolding computeGreenRate_def Let_def rate_value
    by simp
qed

lemma computeGreenRate_counts:
  "up (computeGreenRate prices) = spec_up prices \<and>
   down (computeGreenRate prices) = spec_down prices"
  by (simp add: computeGreenRate_eq)

lemma computeGreenRate_rate:
  "greenRate (computeGreenRate prices) =
     (if spec_up prices + spec_down prices = 0 then Finite 0
      else Finite (real (spec_up prices) / real (spec_up prices + spec_down prices) * 100))"
  by (simp add: computeGreenRate_eq)

text \<open>
  Claim C2, as amended. For every price series \<open>S\<close>, \<open>computeGreenRate\<close> counts the
  consecutive pairs whose later price is strictly greater as up and those whose later
  price is strictly less as down, so that equal consecutive prices are in neither count;
  for a series that is not empty, \<open>up + down \<le> length(S) - 1\<close>; the rate is
  \<open>up / (up + down) * 100\<close> when \<open>up + down\<close> is not 0; and the result is
  \<open>{up: 0, down: 0, greenRate: 0}\<close> whenever \<open>up + down\<close> is 0, and for every series
  of fewer than two samples.
\<close>

theorem computeGreenRate_spec:
  "up (computeGreenRate S) = length (filter (is_up S) [1..<length S]) \<and>
   down (computeGreenRate S) = length (filter (is_down S) [1..<length S]) \<and>
   (S \<noteq> [] \<longrightarrow>
      int (up (computeGreenRate S) + down (computeGreenRate S)) \<le> int (length S) - 1) \<and>
   (up (computeGreenRate S) + down (computeGreenRate S) \<noteq> 0 \<longrightarrow>
      greenRate (computeGreenRate S) =
        Finite (real (up (computeGreenRate S))
                / real (up (computeGreenRate S) + down (computeGreenRate S)) * 100)) \<and>
   (up (computeGreenRate S) + down (computeGreenRate S) = 0 \<longrightarrow>
      computeGreenRate S = \<lparr>greenRate = Finite 0, up = 0, down = 0\<rparr>) \<and>
   (length S < 2 \<longrightarrow> computeGreenRate S = \<lparr>greenRate = Finite 0, up = 0, down = 0\<rparr>)"
proof (intro conjI impI)
  show "up (computeGreenRate S) = length (filter (is_up S) [1..<length S])"
    by (simp add: computeGreenRate_counts spec_up_def)
  show "down (computeGreenRate S) = length (filter (is_down S) [1..<length S])"
    by (simp add: computeGreenRate_counts spec_down_def)
  show "int (up (computeGreenRate S) + down (computeGreenRate S)) \<le> int (length S) - 1"
    if "S \<noteq> []"
  proof -
    have "0 < length S" using that by simp
    then have "int (spec_up S + spec_down S) \<le> int (length S) - 1"
      using up_down_bound [of S] by linarith
    then show ?thesis
      by (simp add: computeGreenRate_counts)
  qed
  show "greenRate (computeGreenRate S) =
        Finite (real (up (computeGreenRate S))
                / real (up (computeGreenRate S) + down (computeGreenRate S)) * 100)"
    if "up (computeGreenRate S) + down (computeGreenRate S) \<noteq> 0"
    using that by (simp add: computeGreenRate_counts computeGreenRate_rate)
  show "computeGreenRate S = \<lparr>greenRate = Finite 0, up = 0, down = 0\<rparr>"
    if "up (computeGreenRate S) + down (computeGreenRate S) = 0"
    using that computeGreenRate_eq [of S] by (simp add: computeGreenRate_counts)
  show "computeGreenRate S = \<lparr>greenRate = Finite 0, up = 0, down = 0\<rparr>"
    if "length S < 2"
    using that by (simp add: computeGreenRate_def)
qed

text \<open>
  The amended claim at the scenario of the specification (two moves up, one down, one
  flat), at a flat series of two samples and at a series of one sample.
\<close>

theorem computeGreenRate_spec_witness:
  "computeGreenRate [(0, 100), (1, 110), (2, 105), (3, 105), (4, 120)]
     = \<lparr>greenRate = Finite (200 / 3), up = 2, down = 1\<rparr> \<and>
   int (2 + 1) \<le> int (length [(0, 100), (1, 110), (2, 105), (3, 105), (4::real, 120::real)]) - 1 \<and>
   computeGreenRate [(0, 5), (1, 5)] = \<lparr>greenRate = Finite 0, up = 0, down = 0\<rparr> \<and>
   computeGreenRate [(0, 5)] = \<lparr>greenRate = Finite 0, up = 0, down = 0\<rparr>"
proof -
  let ?S = "[(0, 100), (1, 110), (2, 105), (3, 105), (4::real, 120::real)]"
  let ?T = "[(0, 5), (1::real, 5::real)]"
  let ?U = "[(0::real, 5::real)]"
  have ud: "up (computeGreenRate ?S) = 2 \<and> down (computeGreenRate ?S) = 1"
    by (simp add: computeGreenRate_def green_loop.simps)
  have "?S \<noteq> []" by simp
  then have bound: "int (up (computeGreenRate ?S) + down (computeGreenRate ?S)) \<le> int (length ?S) - 1"
    using computeGreenRate_spec [of ?S] by blast
  have "up (computeGreenRate ?S) + down (computeGreenRate ?S) \<noteq> 0"
    using ud by simp
  then have "greenRate (computeGreenRate ?S) =
        Finite (real (up (computeGreenRate ?S))
                / real (up (computeGreenRate ?S) + down (computeGreenRate ?S)) * 100)"
    using computeGreenRate_spec [of ?S] by blast
  then have rate: "greenRate (computeGreenRate ?S) = Finite (200 / 3)"
    by (simp add: ud)
  have a: "computeGreenRate ?S = \<lparr>greenRate = Finite (200 / 3), up = 2, down = 1\<rparr>"
    using rate ud by (cases "computeGreenRate ?S") simp
  have flat: "up (computeGreenRate ?T) + down (computeGreenRate ?T) = 0"
    by (simp add: computeGreenRate_def green_loop.simps)
  have b: "computeGreenRate ?T = \<lparr>greenRate = Finite 0, up = 0, down = 0\<rparr>"
    by (rule computeGreenRate_spec [of ?T, THEN conjunct2, THEN conjunct2, THEN conjunct2,
          THEN conjunct2, THEN conjunct1, THEN mp, OF flat])
  have "length ?U < 2" by simp
  then have c: "computeGreenRate ?U = \<lparr>greenRate = Finite 0, up = 0, down = 0\<rparr>"
    using computeGreenRate_spec [of ?U] by blast
  show ?thesis
    using a b c bound by (simp add: ud)
qed

text \<open>
  Claim C2 as it was stated fails for the empty series: both counts are 0, and
  \<open>length(S) - 1\<close> is \<open>-1\<close>.
\<close>

theorem computeGreenRate_empty_counterexample:
  "\<not> int (up (computeGreenRate []) + down (computeGreenRate []))
       \<le> int (length ([] :: (real \<times> real) list)) - 1"
  by (simp add: computeGreenRate_def)

section \<open>Properties of the volume bars\<close>












section \<open>Properties of the gainer and the loser\<close>

lemma Array_sort_Cons: "Array_sort cmp (x # xs) = insert_sorted cmp x (Array_sort cmp xs)"
  by (simp add: Array_sort_def)

lemma first_insert_sorted:
  "first_or_null (insert_sorted cmp x ys) =
     (case first_or_null ys of
        None \<Rightarrow> Some x
      | Some h \<Rightarrow> if cmp x h \<le> 0 then Some x else Some h)"
  by (cases ys) (simp_all add: first_or_null_def)

lemma first_Array_sort:
  "first_or_null (Array_sort (\<lambda>a b. f a - f b) xs) = first_min f xs"
proof (induction xs)
  case Nil
  then show ?case by (simp add: Array_sort_def first_or_null_def)
next
  case (Cons x xs)
  then show ?case
    by (simp add: Array_sort_Cons first_insert_sorted split: option.splits)
qed

lemma first_min_None: "first_min f xs = None \<longleftrightarrow> xs = []"
  by (cases xs) (simp_all split: option.splits)

lemma first_min_Some:
  "first_min f xs = Some m \<Longrightarrow>
     m \<in> set xs \<and> (\<forall>x \<in> set xs. f m \<le> f x) \<and> find (\<lambda>x. f x = f m) xs = Some m"
proof (induction xs arbitrary: m)
  case Nil
  then show ?case by simp
next
  case (Cons x xs)
  show ?case
  proof (cases "first_min f xs")
    case None
    then have "xs = []" by (simp add: first_min_None)
    with Cons.prems show ?thesis by simp
  next
    case (Some h)
    note ih = Cons.IH [OF Some]
    show ?thesis
    proof (cases "f x \<le> f h")
      case True
      then have "m = x" using Cons.prems Some by simp
      moreover have "\<forall>y \<in> set xs. f x \<le> f y"
        using ih True by force
      ultimately show ?thesis by simp
    next
      case False
      then have "m = h" using Cons.prems Some by simp
      then show ?thesis using ih False by auto
    qed
  qed
qed

lemma find_filter: "find P (filter Q xs) = find (\<lambda>x. Q x \<and> P x) xs"
  by (induction xs) simp_all

lemma topLoser_first_min: "topLoser coins = first_min change_of (coinsWithChange coins)"
  unfolding topLoser_def change_of_def [symmetric] by (rule first_Array_sort)

lemma topGainer_first_min:
  "topGainer coins = first_min (\<lambda>c. - change_of c) (coinsWithChange coins)"
proof -
  have "(\<lambda>a b. nullish_or (price_change_percentage_24h b) 0
              - nullish_or (price_change_percentage_24h a) 0)
        = (\<lambda>a b. (- change_of a) - (- change_of b))"
    by (simp add: change_of_def)
  then show ?thesis
    unfolding topGainer_def by (simp only: first_Array_sort)
qed

lemma change_of_Some: "price_change_percentage_24h c = Some v \<Longrightarrow> change_of c = v"
  by (simp add: change_of_def nullish_or_def)

lemma same_change:
  assumes "price_change_percentage_24h g \<noteq> None"
  shows "(price_change_percentage_24h c \<noteq> None \<and> change_of c = change_of g)
         \<longleftrightarrow> price_change_percentage_24h c = price_change_percentage_24h g"
  using assms by (auto simp: change_of_def nullish_or_def)

lemma first_in_changes:
  assumes "first_min f (coinsWithChange coins) = Some g"
    and "\<And>a b. f a = f b \<longleftrightarrow> change_of a = change_of b"
  shows "g \<in> set coins \<and> price_change_percentage_24h g \<noteq> None \<and>
         (\<forall>c \<in> set (coinsWithChange coins). f g \<le> f c) \<and>
         find (\<lambda>c. price_change_percentage_24h c = price_change_percentage_24h g) coins = Some g"
proof -
  note fm = first_min_Some [OF assms(1)]
  have mem: "g \<in> set coins" and nn: "price_change_percentage_24h g \<noteq> None"
    using fm by (simp_all add: coinsWithChange_def)
  have "find (\<lambda>c. f c = f g) (coinsWithChange coins) = Some g"
    using fm by simp
  then have "find (\<lambda>c. price_change_percentage_24h c \<noteq> None \<and> change_of c = change_of g) coins
             = Some g"
    by (simp add: coinsWithChange_def find_filter assms(2))
  then have "find (\<lambda>c. price_change_percentage_24h c = price_change_percentage_24h g) coins
             = Some g"
    by (simp only: same_change [OF nn])
  then show ?thesis using fm mem nn by simp
qed

lemma topGainer_Some:
  assumes "topGainer coins = Some g"
  shows "g \<in> set coins \<and> price_change_percentage_24h g \<noteq> None \<and>
         (\<forall>c \<in> set coins. \<forall>v. price_change_percentage_24h c = Some v \<longrightarrow> v \<le> change_of g) \<and>
         find (\<lambda>c. price_change_percentage_24h c = price_change_percentage_24h g) coins = Some g"
proof -
  have fm: "first_min (\<lambda>c. - change_of c) (coinsWithChange coins) = Some g"
    using assms by (simp add: topGainer_first_min)
  note props = first_in_changes [OF fm]
  have "\<forall>c \<in> set coins. \<forall>v. price_change_percentage_24h c = Some v \<longrightarrow> v \<le> change_of g"
  proof (intro ballI allI impI)
    fix c v
    assume "c \<in> set coins" and v: "price_change_percentage_24h c = Some v"
    then have "c \<in> set (coinsWithChange coins)" by (simp add: coinsWithChange_def)
    then have "- change_of g \<le> - change_of c" using props by simp
    then show "v \<le> change_of g" using change_of_Some [OF v] by simp
  qed
  then show ?thesis using props by simp
qed

lemma topLoser_Some:
  assumes "topLoser coins = Some l"
  shows "l \<in> set coins \<and> price_change_percentage_24h l \<noteq> None \<and>
         (\<forall>c \<in> set coins. \<forall>v. price_change_percentage_24h c = Some v \<longrightarrow> change_of l \<le> v) \<and>
         find (\<lambda>c. price_change_percentage_24h c = price_change_percentage_24h l) coins = Some l"
proof -
  have fm: "first_min change_of (coinsWithChange coins) = Some l"
    using assms by (simp add: topLoser_first_min)
  note props = first_in_changes [OF fm]
  have "\<forall>c \<in> set coins. \<forall>v. price_change_percentage_24h c = Some v \<longrightarrow> change_of l \<le> v"
  proof (intro ballI allI impI)
    fix c v
    assume "c \<in> set coins" and v: "price_change_percentage_24h c = Some v"
    then have "c \<in> set (coinsWithChange coins)" by (simp add: coinsWithChange_def)
    then have "change_of l \<le> change_of c" using props by simp
    then show "change_of l \<le> v" using change_of_Some [OF v] by simp
  qed
  then show ?thesis using props by simp
qed

lemma selection_exists:
  "(topGainer coins = None \<longleftrightarrow> coinsWithChange coins = []) \<and>
   (topLoser coins = None \<longleftrightarrow> coinsWithChange coins = [])"
  by (simp add: topGainer_first_min topLoser_first_min first_min_None)

lemma coinsWithChange_empty:
  "coinsWithChange coins = [] \<longleftrightarrow> (\<forall>c \<in> set coins. price_change_percentage_24h c = None)"
  by (auto simp: coinsWithChange_def filter_empty_conv)

text \<open>
  Claim C4. For every list of coins, a selected gainer is a coin of the list whose 24h
  change is not null and is at least every change of the list that is not null, and it is
  the first coin of the list, in input order, with that change; a selected loser is the
  same with at most in place of at least. When some coin has a change that is not null,
  both are selected. When no coin has one, both are null and the average change is 0.
\<close>

theorem gainer_loser_spec:
  "(\<forall>g. topGainer coins = Some g \<longrightarrow>
      g \<in> set coins \<and>
      (\<exists>w. price_change_percentage_24h g = Some w \<and>
           (\<forall>c \<in> set coins. \<forall>v. price_change_percentage_24h c = Some v \<longrightarrow> v \<le> w)) \<and>
      find (\<lambda>c. price_change_percentage_24h c = price_change_percentage_24h g) coins = Some g) \<and>
   (\<forall>l. topLoser coins = Some l \<longrightarrow>
      l \<in> set coins \<and>
      (\<exists>w. price_change_percentage_24h l = Some w \<and>
           (\<forall>c \<in> set coins. \<forall>v. price_change_percentage_24h c = Some v \<longrightarrow> w \<le> v)) \<and>
      find (\<lambda>c. price_change_percentage_24h c = price_change_percentage_24h l) coins = Some l) \<and>
   ((\<exists>c \<in> set coins. price_change_percentage_24h c \<noteq> None) \<longrightarrow>
      topGainer coins \<noteq> None \<and> topLoser coins \<noteq> None) \<and>
   ((\<forall>c \<in> set coins. price_change_percentage_24h c = None) \<longrightarrow>
      topGainer coins = None \<and> topLoser coins = None \<and> avgChange24h coins = Finite 0)"
proof (intro conjI allI impI)
  fix g assume g: "topGainer coins = Some g"
  note p = topGainer_Some [OF g]
  show "g \<in> set coins" using p by simp
  show "find (\<lambda>c. price_change_percentage_24h c = price_change_percentage_24h g) coins = Some g"
    using p by simp
  obtain w where w: "price_change_percentage_24h g = Some w"
    using p by auto
  then have "change_of g = w" by (rule change_of_Some)
  then show "\<exists>w. price_change_percentage_24h g = Some w \<and>
           (\<forall>c \<in> set coins. \<forall>v. price_change_percentage_24h c = Some v \<longrightarrow> v \<le> w)"
    using p w by auto
next
  fix l assume l: "topLoser coins = Some l"
  note p = topLoser_Some [OF l]
  show "l \<in> set coins" using p by simp
  show "find (\<lambda>c. price_change_percentage_24h c = price_change_percentage_24h l) coins = Some l"
    using p by simp
  obtain w where w: "price_change_percentage_24h l = Some w"
    using p by auto
  then have "change_of l = w" by (rule change_of_Some)
  then show "\<exists>w. price_change_percentage_24h l = Some w \<and>
           (\<forall>c \<in> set coins. \<forall>v. price_change_percentage_24h c = Some v \<longrightarrow> w \<le> v)"
    using p w by auto
next
  assume "\<exists>c \<in> set coins. price_change_percentage_24h c \<noteq> None"
  then have "coinsWithChange coins \<noteq> []"
    by (simp add: coinsWithChange_empty)
  then show "topGainer coins \<noteq> None" and "topLoser coins \<noteq> None"
    by (simp_all add: selection_exists)
next
  assume "\<forall>c \<in> set coins. price_change_percentage_24h c = None"
  then have e: "coinsWithChange coins = []"
    by (simp add: coinsWithChange_empty)
  then show "topGainer coins = None" and "topLoser coins = None"
    by (simp_all add: selection_exists)
  show "avgChange24h coins = Finite 0"
    by (simp add: avgChange24h_def e)
qed

text \<open>
  The claim at five coins, two of which tie for the largest change and two for the
  smallest, and at one coin without a change.
\<close>

theorem gainer_loser_spec_witness:
  "topGainer example_coins = Some (example_coin ''b'' 8 1 (Some 2)) \<and>
   find (\<lambda>c. price_change_percentage_24h c = Some 2) example_coins
     = Some (example_coin ''b'' 8 1 (Some 2)) \<and>
   topLoser example_coins = Some (example_coin ''c'' 7 1 (Some (- 1))) \<and>
   find (\<lambda>c. price_change_percentage_24h c = Some (- 1)) example_coins
     = Some (example_coin ''c'' 7 1 (Some (- 1))) \<and>
   topGainer [example_coin ''a'' 9 1 None] = None \<and>
   topLoser [example_coin ''a'' 9 1 None] = None \<and>
   avgChange24h [example_coin ''a'' 9 1 None] = Finite 0"
proof -
  let ?b = "example_coin ''b'' 8 1 (Some 2)"
  let ?c = "example_coin ''c'' 7 1 (Some (- 1))"
  have g: "topGainer example_coins = Some ?b"
    by (simp add: topGainer_def example_coins_def coinsWithChange_def Array_sort_def
        first_or_null_def nullish_or_def example_coin_def)
  have l: "topLoser example_coins = Some ?c"
    by (simp add: topLoser_def example_coins_def coinsWithChange_def Array_sort_def
        first_or_null_def nullish_or_def example_coin_def)
  have "find (\<lambda>c. price_change_percentage_24h c = price_change_percentage_24h ?b) example_coins
        = Some ?b"
    using gainer_loser_spec [of example_coins] g by blast
  then have fg: "find (\<lambda>c. price_change_percentage_24h c = Some 2) example_coins = Some ?b"
    by (simp add: example_coin_def)
  have "find (\<lambda>c. price_change_percentage_24h c = price_change_percentage_24h ?c) example_coins
        = Some ?c"
    using gainer_loser_spec [of example_coins] l by blast
  then have fl: "find (\<lambda>c. price_change_percentage_24h c = Some (- 1)) example_coins = Some ?c"
    by (simp add: example_coin_def)
  have "\<forall>c \<in> set [example_coin ''a'' 9 1 None]. price_change_percentage_24h c = None"
    by (simp add: example_coin_def)
  then have n: "topGainer [example_coin ''a'' 9 1 None] = None \<and>
      topLoser [example_coin ''a'' 9 1 None] = None \<and>
      avgChange24h [example_coin ''a'' 9 1 None] = Finite 0"
    using gainer_loser_spec [of "[example_coin ''a'' 9 1 None]"] by blast
  show ?thesis using g fg l fl n by simp
qed

section \<open>Properties of the flares by day\<close>

lemma set_insert_sorted: "set (insert_sorted cmp x ys) = insert x (set ys)"
  by (induction ys) auto

lemma Array_sort_Nil: "Array_sort cmp [] = []"
  by (simp add: Array_sort_def)

lemma set_Array_sort: "set (Array_sort cmp xs) = set xs"
  by (induction xs) (simp_all add: Array_sort_Nil Array_sort_Cons set_insert_sorted)

lemma sum_insert_sorted:
  "sum_list (map g (insert_sorted cmp x ys)) = g x + sum_list (map (g :: 'a \<Rightarrow> nat) ys)"
  by (induction ys) simp_all

lemma sum_Array_sort: "sum_list (map g (Array_sort cmp xs)) = sum_list (map (g :: 'a \<Rightarrow> nat) xs)"
  by (induction xs) (simp_all add: Array_sort_Nil Array_sort_Cons sum_insert_sorted)

lemma distinct_insert_sorted:
  "distinct (map g (insert_sorted cmp x ys)) = (g x \<notin> g ` set ys \<and> distinct (map g ys))"
  by (induction ys) (auto simp: set_insert_sorted)

lemma distinct_Array_sort: "distinct (map g (Array_sort cmp xs)) = distinct (map g xs)"
  by (induction xs) (simp_all add: Array_sort_Nil Array_sort_Cons distinct_insert_sorted
      set_Array_sort)

lemma keys_Map_set: "fst ` set (Map_set m k v) = insert k (fst ` set m)"
proof (induction m)
  case Nil
  show ?case by simp
next
  case (Cons p m)
  obtain k' v' where p: "p = (k', v')" by (cases p)
  show ?case
  proof (cases "k' = k")
    case True
    then show ?thesis by (simp add: p)
  next
    case False
    then show ?thesis by (simp add: p Cons.IH insert_commute)
  qed
qed

lemma distinct_Map_set:
  "distinct (map fst m) \<Longrightarrow> distinct (map fst (Map_set m k v))"
  by (induction m) (auto simp: keys_Map_set)

lemma sum_Map_set:
  "sum_list (map snd (Map_set m k (Suc (nullish_or (Map_get m k) 0))))
   = Suc (sum_list (map snd m))"
  by (induction m) (auto simp: Map_get_def nullish_or_def)

lemma positive_Map_set:
  "\<forall>c \<in> snd ` set m. 1 \<le> c \<Longrightarrow> (1 :: nat) \<le> v \<Longrightarrow> \<forall>c \<in> snd ` set (Map_set m k v). 1 \<le> c"
proof (induction m)
  case Nil
  then show ?case by simp
next
  case (Cons p m)
  obtain k' v' where p: "p = (k', v')" by (cases p)
  have tail: "\<forall>c \<in> snd ` set m. 1 \<le> c" and head: "1 \<le> v'"
    using Cons.prems(1) by (simp_all add: p)
  show ?case
  proof (cases "k' = k")
    case True
    then show ?thesis using tail Cons.prems(2) by (simp add: p)
  next
    case False
    then show ?thesis using Cons.IH [OF tail Cons.prems(2)] head by (simp add: p)
  qed
qed

lemma keys_count_flare: "fst ` set (count_flare m f) = insert (flare_day f) (fst ` set m)"
  by (simp add: count_flare_def keys_Map_set flare_day_def slice_first_def Let_def)

lemma distinct_count_flare:
  "distinct (map fst m) \<Longrightarrow> distinct (map fst (count_flare m f))"
  by (simp add: count_flare_def distinct_Map_set Let_def)

lemma sum_count_flare: "sum_list (map snd (count_flare m f)) = sum_list (map snd m) + 1"
  by (simp add: count_flare_def sum_Map_set Let_def)

lemma positive_count_flare:
  "\<forall>c \<in> snd ` set m. 1 \<le> c \<Longrightarrow> \<forall>c \<in> snd ` set (count_flare m f). 1 \<le> c"
  unfolding count_flare_def Let_def by (rule positive_Map_set) simp_all

lemma foldl_count_flare:
  assumes "distinct (map fst m)" and "\<forall>c \<in> snd ` set m. 1 \<le> c"
  shows "distinct (map fst (foldl count_flare m flares)) \<and>
         (\<forall>c \<in> snd ` set (foldl count_flare m flares). 1 \<le> c) \<and>
         fst ` set (foldl count_flare m flares) = fst ` set m \<union> flare_day ` set flares \<and>
         sum_list (map snd (foldl count_flare m flares)) = sum_list (map snd m) + length flares"
  using assms
proof (induction flares arbitrary: m)
  case Nil
  then show ?case by simp
next
  case (Cons f flares)
  note ih = Cons.IH [OF distinct_count_flare [OF Cons.prems(1)]
      positive_count_flare [OF Cons.prems(2)]]
  show ?case
    using ih by (simp add: keys_count_flare sum_count_flare)
qed

text \<open>
  Claim C10. For every list of flares, the counts that \<open>groupFlaresByDay\<close> returns sum
  to the number of flares, every count is at least 1, and the days returned are exactly
  the first-ten-character prefixes of the begin timestamps, each of them once.
\<close>

theorem groupFlaresByDay_count_preserving:
  "sum_list (map flare_count (groupFlaresByDay cmp flares)) = length flares \<and>
   (\<forall>d \<in> set (groupFlaresByDay cmp flares). 1 \<le> flare_count d) \<and>
   set (map flare_date (groupFlaresByDay cmp flares)) = flare_day ` set flares \<and>
   distinct (map flare_date (groupFlaresByDay cmp flares))"
proof -
  let ?m = "foldl count_flare [] flares"
  let ?mk = "\<lambda>(d, c). \<lparr>flare_date = d, flare_count = c\<rparr>"
  have inv: "distinct (map fst ?m)" "\<forall>c \<in> snd ` set ?m. 1 \<le> c"
    "fst ` set ?m = flare_day ` set flares" "sum_list (map snd ?m) = length flares"
    using foldl_count_flare [of "[]" flares] by simp_all
  have d: "map flare_date (map ?mk ?m) = map fst ?m"
    by (simp add: case_prod_unfold comp_def)
  have c: "map flare_count (map ?mk ?m) = map snd ?m"
    by (simp add: case_prod_unfold comp_def)
  have "sum_list (map flare_count (groupFlaresByDay cmp flares)) = sum_list (map snd ?m)"
    unfolding groupFlaresByDay_def sum_Array_sort c ..
  moreover have "flare_count ` set (groupFlaresByDay cmp flares) = snd ` set ?m"
    unfolding groupFlaresByDay_def set_Array_sort using c by (metis set_map)
  moreover have "set (map flare_date (groupFlaresByDay cmp flares)) = fst ` set ?m"
    unfolding groupFlaresByDay_def set_map set_Array_sort using d by (metis set_map)
  moreover have "distinct (map flare_date (groupFlaresByDay cmp flares)) = distinct (map fst ?m)"
    unfolding groupFlaresByDay_def distinct_Array_sort d ..
  moreover have "1 \<le> flare_count d" if "d \<in> set (groupFlaresByDay cmp flares)" for d
  proof -
    have "flare_count d \<in> flare_count ` set (groupFlaresByDay cmp flares)"
      using that by (rule imageI)
    then have "flare_count d \<in> snd ` set ?m"
      using calculation(2) by simp
    then show ?thesis using inv(2) by blast
  qed
  ultimately show ?thesis
    using inv by simp
qed

text \<open>Three flares on two days, the later day first in the input.\<close>

lemma groupFlaresByDay_example:
  "groupFlaresByDay example_compare example_flares
   = [\<lparr>flare_date = ''2024-01-01'', flare_count = 1\<rparr>,
      \<lparr>flare_date = ''2024-01-02'', flare_count = 2\<rparr>]"
  by (simp add: groupFlaresByDay_def example_flares_def example_flare_def count_flare_def
      slice_first_def Map_get_def nullish_or_def Array_sort_def)

text \<open>The claim at three flares on two days.\<close>

theorem groupFlaresByDay_count_preserving_witness:
  "sum_list (map flare_count (groupFlaresByDay example_compare example_flares)) = 3 \<and>
   list_all (\<lambda>d. 1 \<le> flare_count d) (groupFlaresByDay example_compare example_flares) \<and>
   set (map flare_date (groupFlaresByDay example_compare example_flares))
     = {''2024-01-01'', ''2024-01-02''} \<and>
   groupFlaresByDay example_compare example_flares
     = [\<lparr>flare_date = ''2024-01-01'', flare_count = 1\<rparr>,
        \<lparr>flare_date = ''2024-01-02'', flare_count = 2\<rparr>]"
proof -
  note t = groupFlaresByDay_count_preserving [of example_compare example_flares]
  have a: "sum_list (map flare_count (groupFlaresByDay example_compare example_flares)) = 3"
    using t by (simp add: example_flares_def)
  have b: "\<forall>d \<in> set (groupFlaresByDay example_compare example_flares). 1 \<le> flare_count d"
    using t by blast
  have "flare_day ` set example_flares = {''2024-01-01'', ''2024-01-02''}"
    by (auto simp: example_flares_def example_flare_def flare_day_def)
  then have c: "set (map flare_date (groupFlaresByDay example_compare example_flares))
      = {''2024-01-01'', ''2024-01-02''}"
    using t by simp
  show ?thesis
    using a b c groupFlaresByDay_example by (simp only: list_all_iff simp_thms)
qed

section \<open>Properties of the market share\<close>


lemma overflow_Finite_iff:
  "overflow (Finite a) = Finite b \<longleftrightarrow> b = a \<and> - overflow_bound < a \<and> a < overflow_bound"
  by auto

lemma overflow_in_range:
  "- overflow_bound < a \<Longrightarrow> a < overflow_bound \<Longrightarrow> overflow (Finite a) = Finite a"
  by simp


lemma foldl_cap_infinite:
  "foldl (\<lambda>sum coin. overflow (js_plus sum (Finite (or_else (market_cap coin) 0))))
     PosInfinity cs = PosInfinity"
  "foldl (\<lambda>sum coin. overflow (js_plus sum (Finite (or_else (market_cap coin) 0))))
     NegInfinity cs = NegInfinity"
  by (induction cs) simp_all


lemma foldl_cap_not_NaN:
  "foldl (\<lambda>sum coin. overflow (js_plus sum (Finite (or_else (market_cap coin) 0))))
     (Finite a) cs \<noteq> NaN"
proof (induction cs arbitrary: a)
  case Nil
  then show ?case by simp
next
  case (Cons c cs)
  let ?f = "\<lambda>sum coin. overflow (js_plus sum (Finite (or_else (market_cap coin) 0)))"
  have step: "?f (Finite a) c = overflow (Finite (a + market_cap c))"
    by (simp add: or_else_def)
  show ?case
  proof (cases "overflow (Finite (a + market_cap c))")
    case (Finite b)
    then show ?thesis using Cons.IH [of b] by (simp only: foldl_Cons step Finite) simp
  next
    case PosInfinity
    then show ?thesis by (simp only: foldl_Cons step foldl_cap_infinite) simp
  next
    case NegInfinity
    then show ?thesis by (simp only: foldl_Cons step foldl_cap_infinite) simp
  next
    case NaN
    then show ?thesis by (simp split: if_splits)
  qed
qed



lemma totalTop5Cap_not_NaN: "totalTop5Cap coins \<noteq> NaN"
  unfolding totalTop5Cap_def by (rule foldl_cap_not_NaN)


















section \<open>Properties of the closest objects\<close>

lemma enrich_cases:
  "enrich Number n = (if has_approach n then Some (spec_enrich Number n) else None)"
  by (cases "close_approach_data n")
     (simp_all add: enrich_def has_approach_def spec_enrich_def first_approach_def)

lemma enriched_eq:
  "map the (filter (\<lambda>e. e \<noteq> None) (map (enrich Number) neos)) = remaining Number neos"
  unfolding remaining_def by (induction neos) (simp_all add: enrich_cases)

lemma pickClosestNeos_eq:
  "pickClosestNeos Number neos K = take K (Array_sort miss_cmp (remaining Number neos))"
  unfolding pickClosestNeos_def Let_def enriched_eq slice_first_def miss_cmp_def [abs_def]
  by (rule refl)

lemma count_insert_sorted:
  "count_list (insert_sorted cmp x ys) z = count_list (x # ys) z"
  by (induction ys) auto

lemma count_Array_sort: "count_list (Array_sort cmp xs) z = count_list xs z"
  by (induction xs) (simp_all add: Array_sort_Nil Array_sort_Cons count_insert_sorted)

lemma length_insert_sorted: "length (insert_sorted cmp x ys) = Suc (length ys)"
  by (induction ys) simp_all

lemma length_Array_sort: "length (Array_sort cmp xs) = length xs"
  by (induction xs) (simp_all add: Array_sort_Nil Array_sort_Cons length_insert_sorted)

lemma sorted_insert_sorted:
  assumes total: "\<And>a b. a \<in> A \<Longrightarrow> b \<in> A \<Longrightarrow> cmp a b \<le> 0 \<or> cmp b a \<le> 0"
    and trans: "\<And>a b c. a \<in> A \<Longrightarrow> b \<in> A \<Longrightarrow> c \<in> A \<Longrightarrow>
                  cmp a b \<le> 0 \<Longrightarrow> cmp b c \<le> 0 \<Longrightarrow> cmp a c \<le> 0"
    and "x \<in> A" and "set ys \<subseteq> A" and "sorted_wrt (\<lambda>a b. cmp a b \<le> 0) ys"
  shows "sorted_wrt (\<lambda>a b. cmp a b \<le> 0) (insert_sorted cmp x ys)"
  using assms(3-)
proof (induction ys)
  case Nil
  then show ?case by simp
next
  case (Cons y ys)
  have y: "y \<in> A" and ys: "set ys \<subseteq> A" using Cons.prems(2) by simp_all
  show ?case
  proof (cases "cmp x y \<le> 0")
    case True
    have "cmp x z \<le> 0" if "z \<in> set ys" for z
    proof -
      have "cmp y z \<le> 0" using Cons.prems(3) that by simp
      moreover have "z \<in> A" using ys that by blast
      ultimately show ?thesis using trans [OF Cons.prems(1) y _ True] by blast
    qed
    then show ?thesis using True Cons.prems(3) by auto
  next
    case False
    then have yx: "cmp y x \<le> 0" using total [OF Cons.prems(1) y] by blast
    have tail: "sorted_wrt (\<lambda>a b. cmp a b \<le> 0) (insert_sorted cmp x ys)"
      using Cons.IH [OF Cons.prems(1) ys] Cons.prems(3) by simp
    have "\<forall>z \<in> set (insert_sorted cmp x ys). cmp y z \<le> 0"
      using yx Cons.prems(3) by (simp add: set_insert_sorted)
    then show ?thesis using False tail by simp
  qed
qed

lemma sorted_Array_sort:
  assumes total: "\<And>a b. a \<in> A \<Longrightarrow> b \<in> A \<Longrightarrow> cmp a b \<le> 0 \<or> cmp b a \<le> 0"
    and trans: "\<And>a b c. a \<in> A \<Longrightarrow> b \<in> A \<Longrightarrow> c \<in> A \<Longrightarrow>
                  cmp a b \<le> 0 \<Longrightarrow> cmp b c \<le> 0 \<Longrightarrow> cmp a c \<le> 0"
    and "set xs \<subseteq> A"
  shows "sorted_wrt (\<lambda>a b. cmp a b \<le> 0) (Array_sort cmp xs)"
  using assms(3)
proof (induction xs)
  case Nil
  then show ?case by (simp add: Array_sort_Nil)
next
  case (Cons x xs)
  have "sorted_wrt (\<lambda>a b. cmp a b \<le> 0) (insert_sorted cmp x (Array_sort cmp xs))"
  proof (rule sorted_insert_sorted [where A = A])
    show "x \<in> A" using Cons.prems by simp
    show "set (Array_sort cmp xs) \<subseteq> A" using Cons.prems by (simp add: set_Array_sort)
    show "sorted_wrt (\<lambda>a b. cmp a b \<le> 0) (Array_sort cmp xs)"
      using Cons by simp
  qed (use total trans in blast)+
  then show ?case by (simp add: Array_sort_Cons)
qed

lemma order_number_le:
  assumes "x \<noteq> NaN" and "y \<noteq> NaN"
  shows "sort_order (js_minus x y) \<le> 0 \<longleftrightarrow> number_le x y"
  using assms by (cases x; cases y) (simp_all add: js_minus_def)

lemma number_le_total: "x \<noteq> NaN \<Longrightarrow> y \<noteq> NaN \<Longrightarrow> number_le x y \<or> number_le y x"
  by (cases x; cases y) auto

lemma number_le_trans: "number_le x y \<Longrightarrow> number_le y z \<Longrightarrow> number_le x z"
  by (cases x; cases y; cases z) simp_all

lemma sorted_by_miss:
  assumes "\<forall>e \<in> set xs. missKm e \<noteq> NaN"
  shows "sorted_wrt number_le (map missKm (Array_sort miss_cmp xs))"
proof -
  let ?A = "{e. missKm e \<noteq> NaN}"
  have le: "miss_cmp a b \<le> 0 \<longleftrightarrow> number_le (missKm a) (missKm b)"
    if "a \<in> ?A" and "b \<in> ?A" for a b
    using that by (simp add: miss_cmp_def order_number_le)
  have s: "sorted_wrt (\<lambda>a b. miss_cmp a b \<le> 0) (Array_sort miss_cmp xs)"
  proof (rule sorted_Array_sort [where A = ?A])
    show "set xs \<subseteq> ?A" using assms by blast
    show "miss_cmp a b \<le> 0 \<or> miss_cmp b a \<le> 0" if "a \<in> ?A" "b \<in> ?A" for a b
      using that le number_le_total [of "missKm a" "missKm b"] by auto
    show "miss_cmp a c \<le> 0"
      if "a \<in> ?A" "b \<in> ?A" "c \<in> ?A" "miss_cmp a b \<le> 0" "miss_cmp b c \<le> 0" for a b c
      using that le number_le_trans [of "missKm a" "missKm b" "missKm c"] by auto
  qed
  have mem: "set (Array_sort miss_cmp xs) \<subseteq> ?A"
    using assms by (auto simp: set_Array_sort)
  have "sorted_wrt (\<lambda>a b. number_le (missKm a) (missKm b)) (Array_sort miss_cmp xs)"
    using s mem le by (intro sorted_wrt_mono_rel [OF _ s]) auto
  then show ?thesis by (simp add: sorted_wrt_map)
qed

text \<open>A list of two or more numbers with a NaN in it is not ascending, in any order.\<close>

lemma nan_unsorted:
  assumes "NaN \<in> set xs" and "2 \<le> length xs"
  shows "\<not> sorted_wrt number_le xs"
proof
  assume s: "sorted_wrt number_le xs"
  obtain i where i: "i < length xs" "xs ! i = NaN"
    using assms(1) by (auto simp: in_set_conv_nth)
  show False
  proof (cases "i = 0")
    case True
    have "number_le (xs ! 0) (xs ! 1)"
      using sorted_wrt_nth_less [OF s, of 0 1] assms(2) by simp
    then show False using i True by simp
  next
    case False
    then have "number_le (xs ! 0) (xs ! i)"
      using sorted_wrt_nth_less [OF s, of 0 i] i(1) by simp
    then show False using i(2) by (cases "xs ! 0") simp_all
  qed
qed

text \<open>
  Claim C8, as amended. For every flattened list of objects and every limit \<open>K\<close>,
  \<open>pickClosestNeos\<close> excludes the objects with no approach record, reads the date, the
  miss distance and the velocity of each remaining object from its first approach record
  only, converting the two to numbers, and returns the first \<open>K\<close> of an arrangement of
  the remaining objects, \<open>K\<close> of them or all when they are fewer. Whenever no converted
  miss distance is NaN, the arrangement is in ascending order of miss distance.
\<close>

theorem pickClosestNeos_spec:
  "(\<exists>S. pickClosestNeos Number neos K = take K S \<and>
        (\<forall>e. count_list S e = count_list (remaining Number neos) e) \<and>
        ((\<forall>e \<in> set (remaining Number neos). missKm e \<noteq> NaN) \<longrightarrow>
           sorted_wrt number_le (map missKm S))) \<and>
   length (pickClosestNeos Number neos K) = min K (length (filter has_approach neos))"
proof (intro conjI exI [of _ "Array_sort miss_cmp (remaining Number neos)"] allI impI)
  show "pickClosestNeos Number neos K = take K (Array_sort miss_cmp (remaining Number neos))"
    by (rule pickClosestNeos_eq)
  show "count_list (Array_sort miss_cmp (remaining Number neos)) e
        = count_list (remaining Number neos) e" for e
    by (rule count_Array_sort)
  show "sorted_wrt number_le (map missKm (Array_sort miss_cmp (remaining Number neos)))"
    if "\<forall>e \<in> set (remaining Number neos). missKm e \<noteq> NaN"
    using that by (rule sorted_by_miss)
  show "length (pickClosestNeos Number neos K) = min K (length (filter has_approach neos))"
    by (simp add: pickClosestNeos_eq length_Array_sort remaining_def min.commute)
qed

lemma example_Number_values:
  "example_Number ''500'' = Finite 500" "example_Number ''20'' = Finite 20"
  "example_Number ''3000'' = Finite 3000" "example_Number ''7'' = Finite 7"
  "example_Number ''3'' = Finite 3" "example_Number ''1'' = Finite 1"
  "example_Number ''abc'' = NaN"
  by (simp_all add: example_Number_def is_digit_def)

lemma remaining_example:
  "map (\<lambda>r. (neo_id r, date r, missKm r)) (remaining example_Number example_neos)
   = [(''a'', ''d1'', Finite 500), (''c'', ''d3'', Finite 20), (''d'', ''d4'', Finite 3000)]"
  by (simp add: remaining_def example_neos_def has_approach_def spec_enrich_def
      first_approach_def example_neo_def example_approach_def example_Number_values
      DatedNeo.defs ClosestNeo.defs NeoObject.defs)

lemma pickClosestNeos_example:
  "map (\<lambda>r. (neo_id r, date r, missKm r)) (pickClosestNeos example_Number example_neos 2)
   = [(''c'', ''d3'', Finite 20), (''a'', ''d1'', Finite 500)]"
  by (simp add: pickClosestNeos_def enrich_def example_neos_def example_neo_def
      example_approach_def example_Number_values Array_sort_def slice_first_def js_minus_def
      DatedNeo.defs ClosestNeo.defs NeoObject.defs)

text \<open>
  The amended claim at four objects and the limit 2: the object without an approach
  record is left out, the second approach record of the first object is not read, and
  the two smallest miss distances come first.
\<close>

theorem pickClosestNeos_spec_witness:
  "(\<exists>S. pickClosestNeos example_Number example_neos 2 = take 2 S \<and>
        sorted_wrt number_le (map missKm S)) \<and>
   length (pickClosestNeos example_Number example_neos 2) = 2 \<and>
   map (\<lambda>r. (neo_id r, date r, missKm r)) (pickClosestNeos example_Number example_neos 2)
     = [(''c'', ''d3'', Finite 20), (''a'', ''d1'', Finite 500)]"
proof -
  have "map (\<lambda>t. snd (snd t))
          (map (\<lambda>r. (neo_id r, date r, missKm r)) (remaining example_Number example_neos))
        = map (\<lambda>t. snd (snd t))
          [(''a'', ''d1'', Finite 500), (''c'', ''d3'', Finite 20), (''d'', ''d4'', Finite 3000)]"
    by (simp only: remaining_example)
  then have "map missKm (remaining example_Number example_neos)
        = [Finite 500, Finite 20, Finite 3000]"
    by (simp add: comp_def)
  then have "NaN \<notin> set (map missKm (remaining example_Number example_neos))"
    by simp
  then have no_nan: "\<forall>e \<in> set (remaining example_Number example_neos). missKm e \<noteq> NaN"
    by (metis image_eqI set_map)
  have a: "\<exists>S. pickClosestNeos example_Number example_neos 2 = take 2 S \<and>
        sorted_wrt number_le (map missKm S)"
    using pickClosestNeos_spec [of example_Number example_neos 2] no_nan by blast
  have "length (filter has_approach example_neos) = 3"
    by (simp add: example_neos_def has_approach_def example_neo_def)
  then have b: "length (pickClosestNeos example_Number example_neos 2) = 2"
    using pickClosestNeos_spec [of example_Number example_neos 2] by simp
  show ?thesis
    using a b pickClosestNeos_example by simp
qed

text \<open>
  Claim C8 as it was stated fails when a miss distance is not a numeral. With the miss
  distances \<open>3\<close>, \<open>abc\<close> and \<open>1\<close> the comparator returns NaN for two of the three
  pairs, and the result carries the miss distances 3, NaN and 1 in this order, which is
  not ascending. No arrangement of these objects is ascending: NaN is not below or equal
  to any number, nor any number to NaN.
\<close>

theorem pickClosestNeos_nan_counterexample:
  "map missKm (pickClosestNeos example_Number example_neos_nan 8) = [Finite 3, NaN, Finite 1] \<and>
   \<not> sorted_wrt number_le [Finite 3, NaN, Finite 1] \<and>
   \<not> (\<exists>S. set S = set (remaining example_Number example_neos_nan) \<and> 2 \<le> length S \<and>
           sorted_wrt number_le (map missKm S))"
proof -
  have a: "map missKm (pickClosestNeos example_Number example_neos_nan 8)
        = [Finite 3, NaN, Finite 1]"
    by (simp add: pickClosestNeos_def enrich_def example_neos_nan_def example_neo_def
        example_approach_def example_Number_values Array_sort_def slice_first_def js_minus_def
        DatedNeo.defs ClosestNeo.defs NeoObject.defs)
  have b: "\<not> sorted_wrt number_le [Finite 3, NaN, Finite 1]"
    by simp
  have r: "map missKm (remaining example_Number example_neos_nan) = [Finite 3, NaN, Finite 1]"
    by (simp add: remaining_def example_neos_nan_def has_approach_def spec_enrich_def
        first_approach_def example_neo_def example_approach_def example_Number_values
        DatedNeo.defs ClosestNeo.defs NeoObject.defs)
  have c: "\<not> (\<exists>S. set S = set (remaining example_Number example_neos_nan) \<and> 2 \<le> length S \<and>
           sorted_wrt number_le (map missKm S))"
  proof
    assume "\<exists>S. set S = set (remaining example_Number example_neos_nan) \<and> 2 \<le> length S \<and>
           sorted_wrt number_le (map missKm S)"
    then obtain S where S: "set S = set (remaining example_Number example_neos_nan)"
        "2 \<le> length S" "sorted_wrt number_le (map missKm S)"
      by blast
    have "set (map missKm S) = set (map missKm (remaining example_Number example_neos_nan))"
      using S(1) by simp
    then have "NaN \<in> set (map missKm S)"
      by (simp only: r) simp
    then show False
      using nan_unsorted [of "map missKm S"] S(2,3) by simp
  qed
  show ?thesis using a b c by blast
qed

section \<open>Totality of the transform functions\<close>



























end
